theory Spec2Isabelle
  imports Main "HOL-Library.Word" "HOL-Library.Sublist"
begin

chapter \<open>Embedding of the proxy core\<close>

section \<open>HTTP/1 protocol detection (stream/http: ProtocolMatch)\<close>

text \<open>
  The Go source keeps the method names in a map used as a set; the detector looks up each
  prefix \<open>magic[0:i]\<close> for \<open>i\<close> from the shortest to the longest method length.
  A byte slice is a \<^typ>\<open>string\<close> (a list of 8-bit characters). The function returns an
  \<open>error\<close>: \<open>nil\<close> (a match) is \<^term>\<open>None\<close>, the two sentinel errors of package
  \<open>stream\<close> are the constructors below.
\<close>

datatype match_error = EAGAIN | FAILED

definition minMethodLengh :: nat where
  "minMethodLengh = length ''GET''"

definition maxMethodLengh :: nat where
  "maxMethodLengh = length ''CONNECT''"

definition httpMethod :: "string list" where
  "httpMethod = [''OPTIONS'', ''GET'', ''HEAD'', ''POST'', ''PUT'', ''DELETE'', ''TRACE'', ''CONNECT'']"

text \<open>The loop \<open>for i := minMethodLengh; i <= size; i++\<close>; \<^term>\<open>True\<close> is the early \<open>return nil\<close>.\<close>

function methodLoop :: "string \<Rightarrow> nat \<Rightarrow> nat \<Rightarrow> bool" where
  "methodLoop magic i sz =
     (if i \<le> sz
      then (if take i magic \<in> set httpMethod then True else methodLoop magic (Suc i) sz)
      else False)"
  by pat_completeness auto
termination
  by (relation "measure (\<lambda>(magic, i, sz). Suc sz - i)") auto

declare methodLoop.simps [simp del]

definition ProtocolMatch :: "string \<Rightarrow> string \<Rightarrow> match_error option" where
  "ProtocolMatch prot magic =
     (if length magic < minMethodLengh then Some EAGAIN
      else
        let sz = (if length magic > maxMethodLengh then maxMethodLengh else length magic)
        in if methodLoop magic minMethodLengh sz then None
           else if sz < maxMethodLengh then Some EAGAIN
           else Some FAILED)"

section \<open>HTTP/1 streams (stream/http: stream, clientStreamConnection)\<close>

text \<open>
  Values of interface type are compared by identity in Go; a listener is therefore
  represented by the address of the object behind the interface, a natural number.
  The \<open>fasthttp\<close> request and response objects belong to a third-party library; they are
  represented by the observations the stream code makes of them.
\<close>

datatype StreamResetReason =
    StreamConnectionTermination
  | StreamConnectionFailed
  | StreamLocalReset
  | StreamRemoteReset

datatype ConnectionEvent =
    RemoteClose
  | LocalClose
  | ConnectTimeout
  | ConnectFailed
  | OtherEvent string

datatype ConnectionCloseType = NoFlush | FlushWrite

type_synonym listener = nat

record Request =
  reqConnectionClose :: bool
  reqIsHTTP11 :: bool
  reqBody :: string

record Response =
  respConnectionClose :: bool
  respHeaders :: "(string \<times> string) list"
  respBody :: string

record stream =
  id :: "64 word"
  readDisableCount :: "32 word"
  request :: "Request option"
  response :: "Response option"
  streamCbs :: "listener list"

text \<open>Calls made on collaborators (listeners, receiver, transport), in program order.\<close>

datatype stream_event =
    OnResetStream listener StreamResetReason
  | OnReceiveHeaders "64 word" Response bool
  | OnReceiveData "64 word" string bool
  | ConnClose ConnectionCloseType ConnectionEvent
  | WriteResponse Response
  | ResponseDone
  | ReleaseRequest
  | ReleaseResponse

datatype go_panic = NilDereference | CloseOfClosedChannel | IndexOutOfRange | TypeAssertion

definition AddEventListener :: "stream \<Rightarrow> listener \<Rightarrow> stream" where
  "AddEventListener s streamCb = s\<lparr>streamCbs := streamCbs s @ [streamCb]\<rparr>"

text \<open>
  \<open>RemoveEventListener\<close>: the range variable of the source loop has the same name as the
  parameter and hides it, so the test \<open>streamCb == streamCb\<close> compares each element with
  itself. The parameter of \<open>findCb\<close> is kept although the loop never reads it.
\<close>

fun findCb :: "listener \<Rightarrow> listener list \<Rightarrow> nat \<Rightarrow> int" where
  "findCb streamCb [] i = - 1"
| "findCb streamCb (x # xs) i = (if x = x then int i else findCb streamCb xs (Suc i))"

definition RemoveEventListener :: "stream \<Rightarrow> listener \<Rightarrow> stream" where
  "RemoveEventListener s streamCb =
     (let cbIdx = findCb streamCb (streamCbs s) 0
      in if cbIdx > - 1
         then s\<lparr>streamCbs := take (nat cbIdx) (streamCbs s) @ drop (nat cbIdx + 1) (streamCbs s)\<rparr>
         else s)"

definition ResetStream :: "stream \<Rightarrow> StreamResetReason \<Rightarrow> stream_event list" where
  "ResetStream s reason =
     (if reason \<noteq> StreamConnectionFailed \<and> reason \<noteq> StreamConnectionTermination
      then map (\<lambda>cb. OnResetStream cb reason) (streamCbs s)
      else [])"

text \<open>
  \<open>clientStream.handleResponse\<close>: delivers headers and, when the body is not empty, the
  body, then forgets request and response. The two status keys written into the header
  before delivery are constants of packages outside the sources; the delivered header is
  represented by the response it belongs to.
\<close>

definition handleResponse :: "stream \<Rightarrow> stream \<times> stream_event list" where
  "handleResponse s =
     (case response s of
        None \<Rightarrow> (s, [])
      | Some r \<Rightarrow>
          let hasData = (length (respBody r) \<noteq> 0)
          in (s\<lparr>request := None, response := None\<rparr>,
              OnReceiveHeaders (id s) r (\<not> hasData)
                # (if hasData then [OnReceiveData (id s) (respBody r) True] else [])))"

record clientStreamConnection =
  cscStream :: "stream option"

text \<open>
  The parser loop \<open>serve\<close> blocks in \<open>response.Read\<close>; the outcomes of the successive reads
  are the input list. With no outcome left the loop is still blocked in its read
  (\<open>Reading\<close>); the unread outcomes are returned so that an exit is visible.
\<close>

datatype decode_result = DecodeError | Decoded Response

datatype serve_status = Reading | Returned | Panicked go_panic

fun serve :: "clientStreamConnection \<Rightarrow> decode_result list
    \<Rightarrow> serve_status \<times> clientStreamConnection \<times> stream_event list \<times> decode_result list" where
  "serve csc [] = (Reading, csc, [], [])"
| "serve csc (DecodeError # rest) =
     (Returned, csc,
      (case cscStream csc of None \<Rightarrow> [] | Some s \<Rightarrow> ResetStream s StreamRemoteReset),
      rest)"
| "serve csc (Decoded resp # rest) =
     (case cscStream csc of
        None \<Rightarrow> (Panicked NilDereference, csc, [], rest)
      | Some s0 \<Rightarrow>
          let s = s0\<lparr>response := Some resp\<rparr>;
              resetConn = respConnectionClose resp;
              (s', ev) = (if sint (readDisableCount s) \<le> 0 then handleResponse s else (s, []));
              csc' = csc\<lparr>cscStream := Some s'\<rparr>
          in if resetConn then (Returned, csc', ev @ [ConnClose NoFlush LocalClose], rest)
             else (case serve csc' rest of
                     (st, c, ev', left) \<Rightarrow> (st, c, ev @ ev', left)))"

text \<open>
  The goroutine started by \<open>newClientStreamConnection\<close>: a panic of \<open>serve\<close> is recovered and
  \<open>serve\<close> is called once more from the deferred function; a normal return ends the task.
\<close>

definition serveTask :: "clientStreamConnection \<Rightarrow> decode_result list
    \<Rightarrow> serve_status \<times> clientStreamConnection \<times> stream_event list \<times> decode_result list" where
  "serveTask csc inputs =
     (case serve csc inputs of
        (Panicked p, c, ev, rest) \<Rightarrow>
          (case serve c rest of (st, c', ev', left) \<Rightarrow> (st, c', ev @ ev', left))
      | r \<Rightarrow> r)"

text \<open>A stream with two listeners and a response with a body, used as concrete inputs.\<close>

definition exStream :: stream where
  "exStream = \<lparr>id = 7, readDisableCount = 0, request = None, response = None, streamCbs = [1, 2]\<rparr>"

definition exResp :: Response where
  "exResp = \<lparr>respConnectionClose = False, respHeaders = [], respBody = ''ok''\<rparr>"

section \<open>Server stream: end of the response (stream/http: serverStream.endStream)\<close>
















section \<open>The channel-coupled pipe (stream/http: streamConnection)\<close>

text \<open>
  \<open>bufChan\<close> is an unbuffered channel of \<open>types.IoBuffer\<close>. Its state is whether it has
  been closed and the value a blocked sender currently offers, if any. A value of the
  interface type is \<open>nil\<close> (the sentinel \<open>Read\<close> sends back) or a buffer; a buffer is
  represented by its unread bytes, which is what \<open>Bytes()\<close> returns and \<open>Len()\<close> counts.
\<close>

type_synonym IoBuffer = "8 word list"

datatype chan_msg = Sentinel | Buffer IoBuffer

record bufChan =
  chClosed :: bool
  chPending :: "chan_msg option"

datatype conn_error = errConnClose

datatype 'a blocking = Blocked | Done 'a

text \<open>
  Modelled from the spec: package \<open>buffer\<close> is not part of the sources. \<open>Drain(n)\<close> discards
  the first \<open>n\<close> unread bytes ("byte buffers with drain semantics").
\<close>

definition Drain :: "IoBuffer \<Rightarrow> nat \<Rightarrow> IoBuffer" where
  "Drain b n = drop n b"

text \<open>Go's built-in \<open>copy(dst, src)\<close>: the number of bytes copied and the new \<open>dst\<close>.\<close>

definition copy :: "8 word list \<Rightarrow> 8 word list \<Rightarrow> nat \<times> 8 word list" where
  "copy dst src = (let n = min (length dst) (length src) in (n, take n src @ drop n dst))"

record read_out =
  rdN :: int
  rdErr :: "conn_error option"
  rdP :: "8 word list"
  rdChan :: bufChan
  rdData :: "IoBuffer option"

text \<open>
  \<open>Read(p)\<close>. A receive from a closed channel yields \<open>ok = false\<close> at once; on an open
  channel it takes the value a sender offers and blocks while there is none. Receiving
  \<open>nil\<close> makes \<open>data.Bytes()\<close> a nil dereference. After the copy the buffer is drained
  in place (the drained buffer is returned in \<open>rdData\<close>) and the sentinel is offered on the
  channel.
\<close>

definition Read :: "bufChan \<Rightarrow> 8 word list \<Rightarrow> (go_panic + read_out) blocking" where
  "Read conn p =
     (if chClosed conn
      then Done (Inr \<lparr>rdN = 0, rdErr = Some errConnClose, rdP = p, rdChan = conn, rdData = None\<rparr>)
      else
        (case chPending conn of
           None \<Rightarrow> Blocked
         | Some Sentinel \<Rightarrow> Done (Inl NilDereference)
         | Some (Buffer data) \<Rightarrow>
             let (n, p') = copy p data
             in Done (Inr \<lparr>rdN = int n, rdErr = None, rdP = p',
                            rdChan = conn\<lparr>chPending := Some Sentinel\<rparr>,
                            rdData = Some (Drain data n)\<rparr>)))"

text \<open>
  \<open>OnEvent\<close>. The predicates \<open>IsClose\<close> and \<open>ConnectFailure\<close> of \<open>types.ConnectionEvent\<close>
  are declared outside the sources and are parameters. Closing a channel twice panics;
  closing it releases a blocked sender.
\<close>

definition OnEvent :: "(ConnectionEvent \<Rightarrow> bool) \<Rightarrow> (ConnectionEvent \<Rightarrow> bool)
    \<Rightarrow> bufChan \<Rightarrow> ConnectionEvent \<Rightarrow> go_panic + bufChan" where
  "OnEvent IsClose ConnectFailure conn event =
     (if IsClose event \<or> ConnectFailure event
      then (if chClosed conn then Inl CloseOfClosedChannel
            else Inr (conn\<lparr>chClosed := True, chPending := None\<rparr>))
      else Inr conn)"

text \<open>The two predicates as package \<open>types\<close> is understood to define them, for concrete runs.\<close>

definition exIsClose :: "ConnectionEvent \<Rightarrow> bool" where
  "exIsClose e = (e = LocalClose \<or> e = RemoteClose
                  \<or> e = OtherEvent ''OnReadErrClose'' \<or> e = OtherEvent ''OnWriteErrClose'')"

definition exConnectFailure :: "ConnectionEvent \<Rightarrow> bool" where
  "exConnectFailure e = (e = ConnectFailed \<or> e = ConnectTimeout)"

section \<open>HTTP connection pool (stream/http/connpool.go)\<close>

text \<open>
  An \<open>*activeClient\<close> is an address into a store of client objects; the free list holds
  addresses, so the same client object can be reached from the list and from a caller.
  \<open>nextClient\<close> is the next unused address, advanced by every allocation. The counters of
  \<open>go-metrics\<close> are 64-bit and wrap. The calls the pool makes on its collaborators are
  appended to \<open>calls\<close> in program order. What the collaborators answer is an argument of
  the operation: \<open>maxConns\<close> is \<open>ResourceManager().Connections().Max()\<close>, \<open>connected\<close>
  says that \<open>Connect(true)\<close> returned no error, \<open>canCreate\<close> is
  \<open>ResourceManager().Requests().CanCreate()\<close>.
\<close>

datatype PoolFailureReason = NoReason | Overflow | ConnectionFailure

type_synonym client = nat

record activeClient =
  totalStream :: "64 word"
  closeWithActiveReq :: bool
  closed :: bool

record Stats =
  UpstreamConnectionTotal :: "64 word"
  UpstreamConnectionActive :: "64 word"
  UpstreamConnectionConFail :: "64 word"
  UpstreamConnectionLocalCloseWithActiveRequest :: "64 word"
  UpstreamConnectionRemoteCloseWithActiveRequest :: "64 word"
  UpstreamRequestTotal :: "64 word"
  UpstreamRequestActive :: "64 word"
  UpstreamRequestLocalReset :: "64 word"
  UpstreamRequestRemoteReset :: "64 word"
  UpstreamRequestTimeout :: "64 word"
  UpstreamRequestFailureEject :: "64 word"
  UpstreamRequestPendingOverflow :: "64 word"

datatype pool_call =
    OnFailure PoolFailureReason
  | OnReady client
  | CodecNewStream client
  | CodecClose client
  | RequestsIncrease
  | RequestsDecrease

record connPool =
  availableClients :: "client list"
  totalClientCount :: "64 word"
  clients :: "client \<Rightarrow> activeClient"
  nextClient :: client
  hostStats :: Stats
  clusterStats :: Stats
  calls :: "pool_call list"

text \<open>\<open>counter.Inc(n)\<close> and \<open>counter.Dec(n)\<close> on the counter a field update selects.\<close>

definition Inc :: "((64 word \<Rightarrow> 64 word) \<Rightarrow> Stats \<Rightarrow> Stats) \<Rightarrow> 64 word \<Rightarrow> Stats \<Rightarrow> Stats" where
  "Inc counter n st = counter (\<lambda>c. c + n) st"

definition Dec :: "((64 word \<Rightarrow> 64 word) \<Rightarrow> Stats \<Rightarrow> Stats) \<Rightarrow> 64 word \<Rightarrow> Stats \<Rightarrow> Stats" where
  "Dec counter n st = counter (\<lambda>c. c - n) st"

text \<open>The same counter of the host and of the cluster, as the source always pairs them.\<close>

definition IncBoth :: "((64 word \<Rightarrow> 64 word) \<Rightarrow> Stats \<Rightarrow> Stats) \<Rightarrow> connPool \<Rightarrow> connPool" where
  "IncBoth counter p =
     p\<lparr>hostStats := Inc counter 1 (hostStats p), clusterStats := Inc counter 1 (clusterStats p)\<rparr>"

definition DecBoth :: "((64 word \<Rightarrow> 64 word) \<Rightarrow> Stats \<Rightarrow> Stats) \<Rightarrow> connPool \<Rightarrow> connPool" where
  "DecBoth counter p =
     p\<lparr>hostStats := Dec counter 1 (hostStats p), clusterStats := Dec counter 1 (clusterStats p)\<rparr>"

definition newActiveClient :: "bool \<Rightarrow> connPool
    \<Rightarrow> (client option \<times> PoolFailureReason) \<times> connPool" where
  "newActiveClient connected pool =
     (let ac = nextClient pool;
          pool1 = pool\<lparr>clients := (clients pool)
                      (ac := \<lparr>totalStream = 0, closeWithActiveReq = False, closed = False\<rparr>),
                    nextClient := Suc ac\<rparr>
      in if \<not> connected then ((None, ConnectionFailure), pool1)
         else ((Some ac, NoReason),
               IncBoth UpstreamConnectionActive_update (IncBoth UpstreamConnectionTotal_update pool1)))"

definition getAvailableClient :: "64 word \<Rightarrow> bool \<Rightarrow> connPool
    \<Rightarrow> (client option \<times> PoolFailureReason) \<times> connPool" where
  "getAvailableClient maxConns connected p =
     (let n = length (availableClients p)
      in if n = 0
         then (if totalClientCount p < maxConns
               then newActiveClient connected (p\<lparr>totalClientCount := totalClientCount p + 1\<rparr>)
               else ((None, Overflow), IncBoth UpstreamRequestPendingOverflow_update p))
         else (let n' = n - 1; c = availableClients p ! n'
               in ((Some c, NoReason), p\<lparr>availableClients := take n' (availableClients p)\<rparr>)))"

definition NewStream :: "64 word \<Rightarrow> bool \<Rightarrow> bool \<Rightarrow> connPool \<Rightarrow> connPool" where
  "NewStream maxConns connected canCreate p =
     (case getAvailableClient maxConns connected p of
        ((None, reason), p1) \<Rightarrow> p1\<lparr>calls := calls p1 @ [OnFailure reason]\<rparr>
      | ((Some c, reason), p1) \<Rightarrow>
          if \<not> canCreate
          then IncBoth UpstreamRequestPendingOverflow_update
                 (p1\<lparr>calls := calls p1 @ [OnFailure Overflow]\<rparr>)
          else (let p2 = IncBoth UpstreamRequestActive_update
                           (IncBoth UpstreamRequestTotal_update p1)
                in p2\<lparr>calls := calls p2 @ [RequestsIncrease, CodecNewStream c, OnReady c]\<rparr>))"

definition Close :: "connPool \<Rightarrow> connPool" where
  "Close p = p\<lparr>calls := calls p @ map CodecClose (availableClients p)\<rparr>"

text \<open>The removal loop of \<open>onConnectionEvent\<close>: the first entry equal to \<open>client\<close> is cut out.\<close>

fun removeAvailable :: "client \<Rightarrow> client list \<Rightarrow> client list" where
  "removeAvailable client [] = []"
| "removeAvailable client (c # cs) = (if c = client then cs else c # removeAvailable client cs)"

definition onConnectionEvent :: "(ConnectionEvent \<Rightarrow> bool) \<Rightarrow> connPool \<Rightarrow> client
    \<Rightarrow> ConnectionEvent \<Rightarrow> connPool" where
  "onConnectionEvent IsClose p client event =
     (if IsClose event
      then (let p1 = (if closeWithActiveReq (clients p client)
                      then (if event = LocalClose
                            then IncBoth UpstreamConnectionLocalCloseWithActiveRequest_update p
                            else if event = RemoteClose
                            then IncBoth UpstreamConnectionRemoteCloseWithActiveRequest_update p
                            else p)
                      else p);
                p2 = p1\<lparr>totalClientCount := totalClientCount p1 - 1\<rparr>;
                p3 = p2\<lparr>availableClients := removeAvailable client (availableClients p2)\<rparr>
            in p3\<lparr>clients := (clients p3)(client := (clients p3 client)\<lparr>closed := True\<rparr>)\<rparr>)
      else if event = ConnectTimeout
      then (let p1 = IncBoth UpstreamRequestTimeout_update p
            in p1\<lparr>calls := calls p1 @ [CodecClose client]\<rparr>)
      else if event = ConnectFailed
      then IncBoth UpstreamConnectionConFail_update p
      else p)"

definition onStreamDestroy :: "connPool \<Rightarrow> client \<Rightarrow> connPool" where
  "onStreamDestroy p client =
     (let p1 = DecBoth UpstreamRequestActive_update p;
          p2 = p1\<lparr>calls := calls p1 @ [RequestsDecrease]\<rparr>
      in if \<not> closed (clients p2 client)
         then p2\<lparr>availableClients := availableClients p2 @ [client]\<rparr>
         else p2)"

definition onStreamReset :: "connPool \<Rightarrow> client \<Rightarrow> StreamResetReason \<Rightarrow> connPool" where
  "onStreamReset p client reason =
     (if reason = StreamConnectionTermination \<or> reason = StreamConnectionFailed
      then (let p1 = IncBoth UpstreamRequestFailureEject_update p
            in p1\<lparr>clients := (clients p1)(client := (clients p1 client)\<lparr>closeWithActiveReq := True\<rparr>)\<rparr>)
      else if reason = StreamLocalReset
      then IncBoth UpstreamRequestLocalReset_update p
      else if reason = StreamRemoteReset
      then IncBoth UpstreamRequestRemoteReset_update p
      else p)"

text \<open>
  The pool-state invariant of the specification: the count is bounded by the maximum of
  the resource manager, no client of the free list is closed, and no client is listed twice.
\<close>

definition pool_inv :: "64 word \<Rightarrow> connPool \<Rightarrow> bool" where
  "pool_inv maxConns p \<longleftrightarrow>
     totalClientCount p \<le> maxConns
     \<and> (\<forall>c \<in> set (availableClients p). \<not> closed (clients p c))
     \<and> distinct (availableClients p)"

text \<open>A pool as \<open>NewConnPool\<close> returns it, and pools reached from it by pool operations.\<close>

definition zeroStats :: Stats where
  "zeroStats = \<lparr>UpstreamConnectionTotal = 0, UpstreamConnectionActive = 0,
     UpstreamConnectionConFail = 0, UpstreamConnectionLocalCloseWithActiveRequest = 0,
     UpstreamConnectionRemoteCloseWithActiveRequest = 0, UpstreamRequestTotal = 0,
     UpstreamRequestActive = 0, UpstreamRequestLocalReset = 0, UpstreamRequestRemoteReset = 0,
     UpstreamRequestTimeout = 0, UpstreamRequestFailureEject = 0,
     UpstreamRequestPendingOverflow = 0\<rparr>"

definition NewConnPool :: connPool where
  "NewConnPool = \<lparr>availableClients = [], totalClientCount = 0,
     clients = (\<lambda>a. \<lparr>totalStream = 0, closeWithActiveReq = False, closed = False\<rparr>),
     nextClient = 0, hostStats = zeroStats, clusterStats = zeroStats, calls = []\<rparr>"

definition poolOneIdle :: connPool where
  "poolOneIdle = onStreamDestroy (NewStream 2 True True NewConnPool) 0"

definition poolOneClosed :: connPool where
  "poolOneClosed = onConnectionEvent exIsClose (NewStream 2 True True NewConnPool) 0 RemoteClose"

definition poolFull :: connPool where
  "poolFull = NewStream 2 True True (NewStream 2 True True NewConnPool)"

text \<open>
  A run of \<open>NewStream\<close> calls, each with what the collaborators answer to it, and the pool
  of at most one connection whose first request the requests resource manager refused.
\<close>

definition NewStreams :: "64 word \<Rightarrow> (bool \<times> bool) list \<Rightarrow> connPool \<Rightarrow> connPool" where
  "NewStreams maxConns answers p =
     foldl (\<lambda>q (connected, canCreate). NewStream maxConns connected canCreate q) p answers"

definition poolRefused :: connPool where
  "poolRefused = NewStream 1 True False NewConnPool"

section \<open>Keep-alive controller (stream/sofarpc)\<close>

text \<open>
  Modelled from the spec: the keep-alive controller \<open>sofaRPCKeepAlive\<close> (its
  \<open>SendKeepAlive\<close>, its response handler and its timer handler) is not part of the
  sources; only its test is. The definitions follow the numbered protocol of the
  specification: a probe gets a fresh request ID that is recorded as pending; a response
  for a pending ID removes the entry, resets \<open>timeoutCount\<close> to zero and reports
  \<open>Success\<close>; a timer that fires for a pending ID removes the entry, increments
  \<open>timeoutCount\<close>, reports \<open>Timeout\<close> and, at the threshold, closes the codec and stops
  the controller; once stopped no probe is sent; a response or timer whose ID is no longer
  pending does nothing. The test declares threshold and count as \<open>uint32\<close>.
\<close>

datatype KeepAliveStatus = KeepAliveSuccess | KeepAliveTimeout

record sofaRPCKeepAlive =
  timeoutCount :: "32 word"
  Threshold :: "32 word"
  pendingIDs :: "32 word list"
  nextID :: "32 word"
  stopped :: bool
  codecClosed :: bool
  recorded :: "KeepAliveStatus list"

definition NewSofaRPCKeepAlive :: "32 word \<Rightarrow> sofaRPCKeepAlive" where
  "NewSofaRPCKeepAlive thres =
     \<lparr>timeoutCount = 0, Threshold = thres, pendingIDs = [], nextID = 1, stopped = False,
      codecClosed = False, recorded = []\<rparr>"

definition SendKeepAlive :: "sofaRPCKeepAlive \<Rightarrow> sofaRPCKeepAlive" where
  "SendKeepAlive k =
     (if stopped k then k
      else k\<lparr>pendingIDs := nextID k # pendingIDs k, nextID := nextID k + 1\<rparr>)"

definition HandleSuccess :: "sofaRPCKeepAlive \<Rightarrow> 32 word \<Rightarrow> sofaRPCKeepAlive" where
  "HandleSuccess k reqID =
     (if reqID \<in> set (pendingIDs k)
      then k\<lparr>pendingIDs := removeAll reqID (pendingIDs k),
              timeoutCount := 0,
              recorded := recorded k @ [KeepAliveSuccess]\<rparr>
      else k)"

definition HandleTimeout :: "sofaRPCKeepAlive \<Rightarrow> 32 word \<Rightarrow> sofaRPCKeepAlive" where
  "HandleTimeout k reqID =
     (if reqID \<in> set (pendingIDs k)
      then (let k1 = k\<lparr>pendingIDs := removeAll reqID (pendingIDs k),
                        timeoutCount := timeoutCount k + 1,
                        recorded := recorded k @ [KeepAliveTimeout]\<rparr>
            in if timeoutCount k1 \<ge> Threshold k1
               then k1\<lparr>codecClosed := True, stopped := True\<rparr>
               else k1)
      else k)"

text \<open>What happens to a controller: a probe is requested, a response arrives, a timer fires.\<close>

datatype keepalive_event = Probe | ResponseFor "32 word" | TimerFired "32 word"

fun keepAliveStep :: "sofaRPCKeepAlive \<Rightarrow> keepalive_event \<Rightarrow> sofaRPCKeepAlive" where
  "keepAliveStep k Probe = SendKeepAlive k"
| "keepAliveStep k (ResponseFor reqID) = HandleSuccess k reqID"
| "keepAliveStep k (TimerFired reqID) = HandleTimeout k reqID"

definition keepAliveRun :: "sofaRPCKeepAlive \<Rightarrow> keepalive_event list \<Rightarrow> sofaRPCKeepAlive" where
  "keepAliveRun k evs = foldl keepAliveStep k evs"

text \<open>
  The test \<open>TestKeepAliveTimeoutAndSuccess\<close>: threshold 6, five probes that all time out,
  then a sixth probe.
\<close>

definition fiveTimeoutsThenProbe :: "keepalive_event list" where
  "fiveTimeoutsThenProbe =
     [Probe, TimerFired 1, Probe, TimerFired 2, Probe, TimerFired 3, Probe, TimerFired 4,
      Probe, TimerFired 5, Probe]"

section \<open>Metrics handoff (package metrics: makesTransferData, readTransferData)\<close>

text \<open>
  Modelled from the spec: the metrics store (\<open>GetAll\<close>, \<open>NewMetrics\<close>, \<open>Each\<close>, \<open>Counter\<close>,
  \<open>Gauge\<close>, \<open>Histogram\<close>) is not part of the sources and the metric objects belong to the
  \<open>go-metrics\<close> library. The store is the list of metrics objects \<open>GetAll\<close> returns; an
  object has a type, labels and a registry from keys to metric values. Go maps are
  association lists here: labels in a fixed order, a registry in the order \<open>Each\<close> visits it,
  a new key at the end. A counter holds its count and a gauge its value (both \<open>int64\<close>); a
  histogram is represented by the sample values \<open>Sample().Values()\<close> returns, and \<open>Update\<close>
  adds one value at the end; every other kind of metric is \<open>OtherMetric\<close>.
\<close>

datatype metric = Counter "64 word" | Gauge "64 word" | Histogram "64 word list" | OtherMetric

type_synonym registry = "(string \<times> metric) list"

record metrics =
  mType :: string
  mLabels :: "(string \<times> string) list"
  mRegistry :: registry

record TransferData =
  MetricsType :: string
  MetricsKey :: string
  MetricsValues :: "64 word list"

record TransferStats =
  Type :: string
  Labels :: "(string \<times> string) list"
  Data :: "TransferData list"

definition metricsCounter :: string where
  "metricsCounter = ''counter''"

definition metricsGauge :: string where
  "metricsGauge = ''gauge''"

definition metricsHistogram :: string where
  "metricsHistogram = ''histogram''"

text \<open>The function passed to \<open>metric.Each\<close>: the records appended for one registry entry.\<close>

fun eachEntry :: "string \<times> metric \<Rightarrow> TransferData list" where
  "eachEntry (key, Counter c) =
     [\<lparr>MetricsType = metricsCounter, MetricsKey = key, MetricsValues = [c]\<rparr>]"
| "eachEntry (key, Gauge g) =
     [\<lparr>MetricsType = metricsGauge, MetricsKey = key, MetricsValues = [g]\<rparr>]"
| "eachEntry (key, Histogram vs) =
     [\<lparr>MetricsType = metricsHistogram, MetricsKey = key, MetricsValues = vs\<rparr>]"
| "eachEntry (key, OtherMetric) = []"

definition transferOf :: "metrics \<Rightarrow> TransferStats" where
  "transferOf metric =
     \<lparr>Type = mType metric, Labels = mLabels metric,
      Data = concat (map eachEntry (mRegistry metric))\<rparr>"

text \<open>
  \<open>encoding/gob\<close> is a parameter: the encoder maps the transfer records to the bytes of some
  wire type or fails with an error, the decoder goes back.
\<close>

definition makesTransferData :: "(TransferStats list \<Rightarrow> string + 'b) \<Rightarrow> metrics list \<Rightarrow> string + 'b" where
  "makesTransferData gobEncode store = gobEncode (map transferOf store)"

text \<open>
  \<open>GetOrRegister(key, fresh)\<close> followed by an operation on the metric found: the type
  assertion of \<open>s.Counter(key)\<close>, \<open>s.Gauge(key)\<close> or \<open>s.Histogram(key)\<close> panics when the key
  holds a metric of another kind.
\<close>

fun updRegistry :: "string \<Rightarrow> metric \<Rightarrow> (metric \<Rightarrow> go_panic + metric) \<Rightarrow> registry
    \<Rightarrow> go_panic + registry" where
  "updRegistry key fresh f [] =
     (case f fresh of Inl e \<Rightarrow> Inl e | Inr m \<Rightarrow> Inr [(key, m)])"
| "updRegistry key fresh f ((k, m) # reg) =
     (if k = key
      then (case f m of Inl e \<Rightarrow> Inl e | Inr m' \<Rightarrow> Inr ((k, m') # reg))
      else (case updRegistry key fresh f reg of
              Inl e \<Rightarrow> Inl e
            | Inr reg' \<Rightarrow> Inr ((k, m) # reg')))"

definition CounterInc :: "string \<Rightarrow> 64 word \<Rightarrow> registry \<Rightarrow> go_panic + registry" where
  "CounterInc key v =
     updRegistry key (Counter 0)
       (\<lambda>m. case m of Counter c \<Rightarrow> Inr (Counter (c + v)) | _ \<Rightarrow> Inl TypeAssertion)"

definition GaugeUpdate :: "string \<Rightarrow> 64 word \<Rightarrow> registry \<Rightarrow> go_panic + registry" where
  "GaugeUpdate key v =
     updRegistry key (Gauge 0)
       (\<lambda>m. case m of Gauge g \<Rightarrow> Inr (Gauge v) | _ \<Rightarrow> Inl TypeAssertion)"

definition HistogramUpdates :: "string \<Rightarrow> 64 word list \<Rightarrow> registry \<Rightarrow> go_panic + registry" where
  "HistogramUpdates key vs =
     updRegistry key (Histogram [])
       (\<lambda>m. case m of Histogram xs \<Rightarrow> Inr (Histogram (fold (\<lambda>v h. h @ [v]) vs xs))
                     | _ \<Rightarrow> Inl TypeAssertion)"

text \<open>The \<open>switch\<close> on \<open>metric.MetricsType\<close>; \<open>MetricsValues[0]\<close> panics on an empty slice.\<close>

definition applyData :: "TransferData \<Rightarrow> registry \<Rightarrow> go_panic + registry" where
  "applyData metric reg =
     (if MetricsType metric = metricsCounter
      then (case MetricsValues metric of
              [] \<Rightarrow> Inl IndexOutOfRange
            | v # _ \<Rightarrow> CounterInc (MetricsKey metric) v reg)
      else if MetricsType metric = metricsGauge
      then (case MetricsValues metric of
              [] \<Rightarrow> Inl IndexOutOfRange
            | v # _ \<Rightarrow> GaugeUpdate (MetricsKey metric) v reg)
      else if MetricsType metric = metricsHistogram
      then HistogramUpdates (MetricsKey metric) (MetricsValues metric) reg
      else Inr reg)"

fun applyAll :: "TransferData list \<Rightarrow> registry \<Rightarrow> go_panic + registry" where
  "applyAll [] reg = Inr reg"
| "applyAll (d # ds) reg =
     (case applyData d reg of Inl e \<Rightarrow> Inl e | Inr reg' \<Rightarrow> applyAll ds reg')"

text \<open>
  \<open>NewMetrics(typ, labels)\<close> returns the metrics object of that type and those labels,
  creating an empty one when the store has none; \<open>body\<close> then runs on its registry.
\<close>

fun NewMetrics :: "string \<Rightarrow> (string \<times> string) list \<Rightarrow> (registry \<Rightarrow> go_panic + registry)
    \<Rightarrow> metrics list \<Rightarrow> go_panic + metrics list" where
  "NewMetrics typ labels body [] =
     (case body [] of
        Inl e \<Rightarrow> Inl e
      | Inr reg \<Rightarrow> Inr [\<lparr>mType = typ, mLabels = labels, mRegistry = reg\<rparr>])"
| "NewMetrics typ labels body (s # store) =
     (if mType s = typ \<and> mLabels s = labels
      then (case body (mRegistry s) of
              Inl e \<Rightarrow> Inl e
            | Inr reg \<Rightarrow> Inr (s\<lparr>mRegistry := reg\<rparr> # store))
      else (case NewMetrics typ labels body store of
              Inl e \<Rightarrow> Inl e
            | Inr store' \<Rightarrow> Inr (s # store')))"

fun applyTransfers :: "TransferStats list \<Rightarrow> metrics list \<Rightarrow> go_panic + metrics list" where
  "applyTransfers [] store = Inr store"
| "applyTransfers (transfer # ts) store =
     (case NewMetrics (Type transfer) (Labels transfer) (applyAll (Data transfer)) store of
        Inl e \<Rightarrow> Inl e
      | Inr store' \<Rightarrow> applyTransfers ts store')"

text \<open>The result is a panic, or the returned error (\<open>None\<close> for \<open>nil\<close>) with the store.\<close>

definition readTransferData :: "('b \<Rightarrow> string + TransferStats list) \<Rightarrow> 'b \<Rightarrow> metrics list
    \<Rightarrow> go_panic + (string option \<times> metrics list)" where
  "readTransferData gobDecode b store =
     (case gobDecode b of
        Inl err \<Rightarrow> Inr (Some err, store)
      | Inr transfers \<Rightarrow>
          (case applyTransfers transfers store of
             Inl e \<Rightarrow> Inl e
           | Inr store' \<Rightarrow> Inr (None, store')))"

text \<open>
  A store is well formed when it is what Go maps can hold: no two metrics objects share
  type and labels, and no registry lists a key twice. The metrics the handoff carries are
  the counters, gauges and histograms.
\<close>

definition wf_store :: "metrics list \<Rightarrow> bool" where
  "wf_store store \<longleftrightarrow>
     distinct (map (\<lambda>s. (mType s, mLabels s)) store)
     \<and> (\<forall>s \<in> set store. distinct (map fst (mRegistry s)))"

definition carried :: "metrics \<Rightarrow> metrics" where
  "carried s = s\<lparr>mRegistry := filter (\<lambda>(key, m). m \<noteq> OtherMetric) (mRegistry s)\<rparr>"

text \<open>A store as the test \<open>addMetrics\<close> builds it, with two types and fewer keys.\<close>

definition exStore :: "metrics list" where
  "exStore =
     [\<lparr>mType = ''typ1'', mLabels = [(''labelKey1'', ''labekVal1'')],
       mRegistry = [(''counter.0'', Counter 1), (''gauge.0'', Gauge 1),
                    (''histogram'', Histogram [1, 1, 1])]\<rparr>,
      \<lparr>mType = ''typ2'', mLabels = [(''labelKey1'', ''labekVal1'')],
       mRegistry = [(''counter.0'', Counter 7), (''histogram'', Histogram [])]\<rparr>]"

chapter \<open>Properties\<close>

section \<open>Protocol detection\<close>

lemma methodLoop_iff:
  "methodLoop magic i sz \<longleftrightarrow> (\<exists>k. i \<le> k \<and> k \<le> sz \<and> take k magic \<in> set httpMethod)"
proof (induction magic i sz rule: methodLoop.induct)
  case (1 magic i sz)
  show ?case
  proof (cases "i \<le> sz")
    case False
    then show ?thesis by (subst methodLoop.simps) auto
  next
    case True
    show ?thesis
    proof (cases "take i magic \<in> set httpMethod")
      case hit: True
      with True show ?thesis by (subst methodLoop.simps) auto
    next
      case miss: False
      have "methodLoop magic i sz = methodLoop magic (Suc i) sz"
        using True miss by (subst methodLoop.simps) simp
      also have "\<dots> \<longleftrightarrow> (\<exists>k. Suc i \<le> k \<and> k \<le> sz \<and> take k magic \<in> set httpMethod)"
        using "1.IH" True miss by simp
      also have "\<dots> \<longleftrightarrow> (\<exists>k. i \<le> k \<and> k \<le> sz \<and> take k magic \<in> set httpMethod)"
        using miss by (metis Suc_leD Suc_leI le_neq_implies_less)
      finally show ?thesis .
    qed
  qed
qed

lemma httpMethod_lengths:
  "m \<in> set httpMethod \<Longrightarrow> minMethodLengh \<le> length m \<and> length m \<le> maxMethodLengh"
  by (auto simp: httpMethod_def minMethodLengh_def maxMethodLengh_def)

lemma method_prefix_found:
  assumes m: "m \<in> set httpMethod" and p: "prefix m magic"
  shows "methodLoop magic minMethodLengh (min (length magic) maxMethodLengh)"
proof -
  from p have tk: "take (length m) magic = m" and le: "length m \<le> length magic"
    by (auto simp: prefix_def)
  from httpMethod_lengths[OF m] le tk m show ?thesis
    unfolding methodLoop_iff by (intro exI[of _ "length m"]) simp
qed

lemma no_method_prefix:
  assumes "\<not> methodLoop magic minMethodLengh maxMethodLengh" and "maxMethodLengh \<le> length magic"
    and m: "m \<in> set httpMethod"
  shows "\<not> prefix m magic"
proof
  assume p: "prefix m magic"
  then have "take (length m) magic = m" by (auto simp: prefix_def)
  with httpMethod_lengths[OF m] m assms(1) show False
    unfolding methodLoop_iff by auto
qed

text \<open>
  Claim C2. The HTTP/1 detector answers need-more (\<open>EAGAIN\<close>) on every input shorter than
  three bytes, answers match (\<open>nil\<close>) on every input that starts with one of the eight
  method names, and answers \<open>FAILED\<close> only on inputs of at least seven bytes none of whose
  prefixes is a method name. The three inputs of the specification's scenario behave as
  listed: \<open>GE\<close> needs more, \<open>GET \<close> matches, \<open>XYZZY!!\<close> fails.
\<close>

theorem ProtocolMatch_spec:
  "(length magic < 3 \<longrightarrow> ProtocolMatch prot magic = Some EAGAIN)
   \<and> ((\<exists>m \<in> set httpMethod. prefix m magic) \<longrightarrow> ProtocolMatch prot magic = None)
   \<and> (ProtocolMatch prot magic = Some FAILED \<longrightarrow>
        7 \<le> length magic \<and> (\<forall>m \<in> set httpMethod. \<not> prefix m magic))
   \<and> ProtocolMatch prot ''GE'' = Some EAGAIN
   \<and> ProtocolMatch prot ''GET '' = None
   \<and> ProtocolMatch prot ''XYZZY!!'' = Some FAILED"
proof (intro conjI impI)
  assume "length magic < 3"
  then show "ProtocolMatch prot magic = Some EAGAIN"
    by (simp add: ProtocolMatch_def minMethodLengh_def)
next
  assume "\<exists>m \<in> set httpMethod. prefix m magic"
  then obtain m where m: "m \<in> set httpMethod" and p: "prefix m magic" by blast
  from p have "length m \<le> length magic" by (auto simp: prefix_def)
  with httpMethod_lengths[OF m] have long: "\<not> length magic < minMethodLengh" by simp
  have szeq: "(if length magic > maxMethodLengh then maxMethodLengh else length magic)
            = min (length magic) maxMethodLengh" by simp
  show "ProtocolMatch prot magic = None"
    unfolding ProtocolMatch_def Let_def szeq using long method_prefix_found[OF m p] by simp
next
  assume f: "ProtocolMatch prot magic = Some FAILED"
  then have len: "maxMethodLengh \<le> length magic"
    by (auto simp: ProtocolMatch_def Let_def split: if_splits)
  from f len have nl: "\<not> methodLoop magic minMethodLengh maxMethodLengh"
    by (auto simp: ProtocolMatch_def Let_def split: if_splits)
  from len show "7 \<le> length magic" by (simp add: maxMethodLengh_def)
  from no_method_prefix[OF nl len] show "\<forall>m \<in> set httpMethod. \<not> prefix m magic" by blast
next
  show "ProtocolMatch prot ''GE'' = Some EAGAIN"
    by (simp add: ProtocolMatch_def minMethodLengh_def)
next
  show "ProtocolMatch prot ''GET '' = None"
    by (simp add: ProtocolMatch_def Let_def minMethodLengh_def maxMethodLengh_def httpMethod_def
        methodLoop.simps)
next
  show "ProtocolMatch prot ''XYZZY!!'' = Some FAILED"
    by (simp add: ProtocolMatch_def Let_def minMethodLengh_def maxMethodLengh_def httpMethod_def
        methodLoop.simps)
qed

theorem ProtocolMatch_spec_witness:
  "length ''GE'' < 3 \<and> ProtocolMatch ''Http1'' ''GE'' = Some EAGAIN
   \<and> (\<exists>m \<in> set httpMethod. prefix m ''DELETE /x'') \<and> ProtocolMatch ''Http1'' ''DELETE /x'' = None
   \<and> ProtocolMatch ''Http1'' ''XYZZY!!'' = Some FAILED
   \<and> 7 \<le> length ''XYZZY!!'' \<and> \<not> (\<exists>m \<in> set httpMethod. prefix m ''XYZZY!!'')"
proof -
  have a: "length ''GE'' < 3" by simp
  have b: "\<exists>m \<in> set httpMethod. prefix m ''DELETE /x''"
    by (simp add: httpMethod_def)
  note t1 = ProtocolMatch_spec[of "''GE''" "''Http1''"]
  note t2 = ProtocolMatch_spec[of "''DELETE /x''" "''Http1''"]
  note t3 = ProtocolMatch_spec[of "''XYZZY!!''" "''Http1''"]
  from t1 a have r1: "ProtocolMatch ''Http1'' ''GE'' = Some EAGAIN" by blast
  from t2 b have r2: "ProtocolMatch ''Http1'' ''DELETE /x'' = None" by blast
  from t3 have r3: "ProtocolMatch ''Http1'' ''XYZZY!!'' = Some FAILED" by blast
  with t3 have r4: "7 \<le> length ''XYZZY!!'' \<and> \<not> (\<exists>m \<in> set httpMethod. prefix m ''XYZZY!!'')"
    by blast
  from a b r1 r2 r3 r4 show ?thesis by blast
qed

section \<open>Stream listeners and the client parser loop\<close>

lemma findCb_nonempty: "findCb streamCb (x # xs) i = int i"
  by simp

lemma RemoveEventListener_tl: "streamCbs (RemoveEventListener s streamCb) = tl (streamCbs s)"
  by (cases "streamCbs s") (simp_all add: RemoveEventListener_def)

text \<open>
  Claim C10 asks that \<open>RemoveEventListener(cb)\<close> removes exactly \<open>cb\<close> and keeps the other
  listeners in order. The source does something else: whatever listener is passed, the
  first listener of the list is removed. With two listeners at addresses 1 and 2,
  removing listener 2 leaves listener 2 registered and drops listener 1.
\<close>

theorem RemoveEventListener_removes_head:
  "streamCbs (RemoveEventListener s streamCb) = tl (streamCbs s)
   \<and> streamCbs (RemoveEventListener (s\<lparr>streamCbs := [1, 2]\<rparr>) 2) = [2]"
  by (simp add: RemoveEventListener_tl)

lemma serve_append_error:
  "serve csc pre = (Reading, csc', ev, left) \<Longrightarrow>
   serve csc (pre @ DecodeError # rest) =
     (Returned, csc', ev @ (case cscStream csc' of None \<Rightarrow> []
                            | Some s \<Rightarrow> ResetStream s StreamRemoteReset), rest)"
proof (induction csc pre arbitrary: csc' ev left rule: serve.induct)
  case (1 csc)
  then show ?case by simp
next
  case (2 csc rest')
  then show ?case by simp
next
  case (3 csc resp rest')
  from "3.prems" obtain s0 where s0: "cscStream csc = Some s0"
    by (cases "cscStream csc") auto
  obtain s' e where h: "(if sint (readDisableCount (s0\<lparr>response := Some resp\<rparr>)) \<le> 0
       then handleResponse (s0\<lparr>response := Some resp\<rparr>) else (s0\<lparr>response := Some resp\<rparr>, [])) = (s', e)"
    by (cases "if sint (readDisableCount (s0\<lparr>response := Some resp\<rparr>)) \<le> 0
       then handleResponse (s0\<lparr>response := Some resp\<rparr>) else (s0\<lparr>response := Some resp\<rparr>, [])") auto
  from "3.prems" s0 h have nc: "\<not> respConnectionClose resp"
    by (auto simp: Let_def split: if_splits)
  obtain st c e' l where r: "serve (csc\<lparr>cscStream := Some s'\<rparr>) rest' = (st, c, e', l)"
    by (cases "serve (csc\<lparr>cscStream := Some s'\<rparr>) rest'") auto
  from "3.prems" s0 h nc r have eqs: "st = Reading" "c = csc'" "ev = e @ e'" "l = left"
    by (auto simp: Let_def)
  have "serve (csc\<lparr>cscStream := Some s'\<rparr>) (rest' @ DecodeError # rest) =
     (Returned, csc', e' @ (case cscStream csc' of None \<Rightarrow> []
                            | Some s \<Rightarrow> ResetStream s StreamRemoteReset), rest)"
    using "3.IH"[OF s0 refl refl refl h[symmetric] refl nc] r eqs by simp
  then show ?case using s0 h nc eqs by (simp add: Let_def)
qed


lemma serve_Reading_consumes_all:
  "serve csc pre = (Reading, csc', ev, left) \<Longrightarrow> left = []"
proof (induction csc pre arbitrary: csc' ev left rule: serve.induct)
  case (3 csc resp rest')
  then show ?case
    by (auto simp: Let_def split: option.splits if_splits prod.splits)
qed simp_all

text \<open>
  Claim C7. Whenever the blocking decode of the client parser loop returns an error, the
  current stream (if there is one) is reset with reason \<open>StreamRemoteReset\<close>: each of its
  registered listeners receives \<open>OnResetStream\<close> with that reason, in registration order.
  The loop then returns, the outcomes of later reads are never consumed, so nothing more is
  delivered on the connection, and the task that runs the loop ends with it.
\<close>

theorem serve_decode_error_resets_and_exits:
  assumes "serve csc pre = (Reading, csc', ev, [])"
  shows "serve csc (pre @ DecodeError # rest) =
           (Returned, csc',
            ev @ (case cscStream csc' of None \<Rightarrow> []
                  | Some s \<Rightarrow> map (\<lambda>cb. OnResetStream cb StreamRemoteReset) (streamCbs s)),
            rest)
         \<and> serveTask csc (pre @ DecodeError # rest) = serve csc (pre @ DecodeError # rest)"
proof -
  have r: "(case cscStream csc' of None \<Rightarrow> [] | Some s \<Rightarrow> ResetStream s StreamRemoteReset)
      = (case cscStream csc' of None \<Rightarrow> []
         | Some s \<Rightarrow> map (\<lambda>cb. OnResetStream cb StreamRemoteReset) (streamCbs s))"
    by (simp add: ResetStream_def split: option.splits)
  from serve_append_error[OF assms, of rest] r
  have a: "serve csc (pre @ DecodeError # rest) =
           (Returned, csc',
            ev @ (case cscStream csc' of None \<Rightarrow> []
                  | Some s \<Rightarrow> map (\<lambda>cb. OnResetStream cb StreamRemoteReset) (streamCbs s)),
            rest)" by simp
  then show ?thesis by (simp add: serveTask_def)
qed

theorem serve_decode_error_witness:
  "serve \<lparr>cscStream = Some exStream\<rparr> [Decoded exResp] =
     (Reading, \<lparr>cscStream = Some exStream\<rparr>,
      [OnReceiveHeaders 7 exResp False, OnReceiveData 7 ''ok'' True], [])
   \<and> serve \<lparr>cscStream = Some exStream\<rparr> ([Decoded exResp] @ DecodeError # [Decoded exResp]) =
     (Returned, \<lparr>cscStream = Some exStream\<rparr>,
      [OnReceiveHeaders 7 exResp False, OnReceiveData 7 ''ok'' True,
       OnResetStream 1 StreamRemoteReset, OnResetStream 2 StreamRemoteReset],
      [Decoded exResp])"
proof -
  have h: "serve \<lparr>cscStream = Some exStream\<rparr> [Decoded exResp] =
     (Reading, \<lparr>cscStream = Some exStream\<rparr>,
      [OnReceiveHeaders 7 exResp False, OnReceiveData 7 ''ok'' True], [])"
    by (simp add: exStream_def exResp_def handleResponse_def Let_def)
  from serve_decode_error_resets_and_exits[OF h, of "[Decoded exResp]"] h
  show ?thesis by (simp add: exStream_def)
qed

section \<open>Server stream connection headers\<close>






section \<open>The pipe between transport and parser\<close>

text \<open>
  Claim C5. \<open>Read(p)\<close> on a closed channel returns 0 bytes and the connection-closed error,
  and \<open>OnEvent\<close> closes the open channel on every close or connect-failure event of the
  transport. On an open channel from which a buffer \<open>b\<close> is received, \<open>Read\<close> copies
  \<open>n = min(len(p), b.Len())\<close> bytes to the front of \<open>p\<close>, drains exactly \<open>n\<close> bytes from
  \<open>b\<close>, sends the sentinel on the channel and returns \<open>n\<close> with a nil error.
\<close>

theorem Read_spec:
  "(chClosed conn \<longrightarrow>
      Read conn p = Done (Inr \<lparr>rdN = 0, rdErr = Some errConnClose, rdP = p, rdChan = conn,
                               rdData = None\<rparr>))
   \<and> (\<not> chClosed conn \<and> (IsClose event \<or> ConnectFailure event) \<longrightarrow>
        (\<exists>conn'. OnEvent IsClose ConnectFailure conn event = Inr conn' \<and> chClosed conn'
           \<and> Read conn' p = Done (Inr \<lparr>rdN = 0, rdErr = Some errConnClose, rdP = p,
                                          rdChan = conn', rdData = None\<rparr>)))
   \<and> (\<not> chClosed conn \<and> chPending conn = Some (Buffer b) \<longrightarrow>
        Read conn p =
          Done (Inr \<lparr>rdN = int (min (length p) (length b)),
                      rdErr = None,
                      rdP = take (min (length p) (length b)) b @ drop (min (length p) (length b)) p,
                      rdChan = conn\<lparr>chPending := Some Sentinel\<rparr>,
                      rdData = Some (drop (min (length p) (length b)) b)\<rparr>))"
  by (simp add: Read_def OnEvent_def copy_def Drain_def Let_def)

theorem Read_spec_witness:
  "Read \<lparr>chClosed = True, chPending = None\<rparr> [0, 0] =
     Done (Inr \<lparr>rdN = 0, rdErr = Some errConnClose, rdP = [0, 0],
                 rdChan = \<lparr>chClosed = True, chPending = None\<rparr>, rdData = None\<rparr>)
   \<and> (\<exists>conn'. OnEvent exIsClose exConnectFailure \<lparr>chClosed = False, chPending = None\<rparr> RemoteClose
               = Inr conn' \<and> chClosed conn'
        \<and> Read conn' [0, 0] = Done (Inr \<lparr>rdN = 0, rdErr = Some errConnClose, rdP = [0, 0],
                                         rdChan = conn', rdData = None\<rparr>))
   \<and> Read \<lparr>chClosed = False, chPending = Some (Buffer [71, 69, 84])\<rparr> [0, 0] =
       Done (Inr \<lparr>rdN = 2, rdErr = None, rdP = [71, 69],
                   rdChan = \<lparr>chClosed = False, chPending = Some Sentinel\<rparr>,
                   rdData = Some [84]\<rparr>)
   \<and> Read \<lparr>chClosed = False, chPending = Some (Buffer [71])\<rparr> [0, 0] =
       Done (Inr \<lparr>rdN = 1, rdErr = None, rdP = [71, 0],
                   rdChan = \<lparr>chClosed = False, chPending = Some Sentinel\<rparr>,
                   rdData = Some []\<rparr>)"
proof -
  note a = Read_spec[of "\<lparr>chClosed = True, chPending = None\<rparr>" "[0, 0]"]
  note b = Read_spec[of "\<lparr>chClosed = False, chPending = None\<rparr>" "[0, 0]" exIsClose RemoteClose
      exConnectFailure]
  note c = Read_spec[of "\<lparr>chClosed = False, chPending = Some (Buffer [71, 69, 84])\<rparr>" "[0, 0]"
      _ _ _ "[71, 69, 84]"]
  note d = Read_spec[of "\<lparr>chClosed = False, chPending = Some (Buffer [71])\<rparr>" "[0, 0]"
      _ _ _ "[71]"]
  have e: "exIsClose RemoteClose" by (simp add: exIsClose_def)
  from a have A: "Read \<lparr>chClosed = True, chPending = None\<rparr> [0, 0] =
     Done (Inr \<lparr>rdN = 0, rdErr = Some errConnClose, rdP = [0, 0],
                 rdChan = \<lparr>chClosed = True, chPending = None\<rparr>, rdData = None\<rparr>)" by simp
  from b e have B: "\<exists>conn'. OnEvent exIsClose exConnectFailure \<lparr>chClosed = False, chPending = None\<rparr> RemoteClose
               = Inr conn' \<and> chClosed conn'
        \<and> Read conn' [0, 0] = Done (Inr \<lparr>rdN = 0, rdErr = Some errConnClose, rdP = [0, 0],
                                         rdChan = conn', rdData = None\<rparr>)" by simp
  from c have C: "Read \<lparr>chClosed = False, chPending = Some (Buffer [71, 69, 84])\<rparr> [0, 0] =
       Done (Inr \<lparr>rdN = 2, rdErr = None, rdP = [71, 69],
                   rdChan = \<lparr>chClosed = False, chPending = Some Sentinel\<rparr>,
                   rdData = Some [84]\<rparr>)" by simp
  from d have D: "Read \<lparr>chClosed = False, chPending = Some (Buffer [71])\<rparr> [0, 0] =
       Done (Inr \<lparr>rdN = 1, rdErr = None, rdP = [71, 0],
                   rdChan = \<lparr>chClosed = False, chPending = Some Sentinel\<rparr>,
                   rdData = Some []\<rparr>)" by simp
  from A B C D show ?thesis by blast
qed

section \<open>Connection pool\<close>

lemma IncBoth_fields [simp]:
  "availableClients (IncBoth f p) = availableClients p"
  "totalClientCount (IncBoth f p) = totalClientCount p"
  "clients (IncBoth f p) = clients p"
  "nextClient (IncBoth f p) = nextClient p"
  "calls (IncBoth f p) = calls p"
  by (simp_all add: IncBoth_def)

lemma DecBoth_fields [simp]:
  "availableClients (DecBoth f p) = availableClients p"
  "totalClientCount (DecBoth f p) = totalClientCount p"
  "clients (DecBoth f p) = clients p"
  "nextClient (DecBoth f p) = nextClient p"
  "calls (DecBoth f p) = calls p"
  by (simp_all add: DecBoth_def)

lemma pool_inv_IncBoth [simp]: "pool_inv m (IncBoth f p) = pool_inv m p"
  by (simp add: pool_inv_def)

lemma pool_inv_DecBoth [simp]: "pool_inv m (DecBoth f p) = pool_inv m p"
  by (simp add: pool_inv_def)

lemma pool_inv_calls [simp]: "pool_inv m (p\<lparr>calls := cs\<rparr>) = pool_inv m p"
  by (simp add: pool_inv_def)

lemma removeAvailable_remove1: "removeAvailable client cs = remove1 client cs"
  by (induction cs) auto

lemma newActiveClient_inv:
  "pool_inv m p \<Longrightarrow> pool_inv m (snd (newActiveClient connected p))"
  by (auto simp: newActiveClient_def Let_def pool_inv_def)

lemma getAvailableClient_inv:
  assumes "pool_inv m p"
  shows "pool_inv m (snd (getAvailableClient m connected p))"
proof (cases "availableClients p = []")
  case True
  show ?thesis
  proof (cases "totalClientCount p < m")
    case lt: True
    then have "totalClientCount p + 1 \<le> m" by (rule inc_le)
    with assms have "pool_inv m (p\<lparr>totalClientCount := totalClientCount p + 1\<rparr>)"
      by (simp add: pool_inv_def)
    from newActiveClient_inv[OF this] True lt show ?thesis
      by (simp add: getAvailableClient_def)
  next
    case False
    with True assms show ?thesis by (simp add: getAvailableClient_def)
  qed
next
  case False
  with assms show ?thesis
    by (auto simp: getAvailableClient_def Let_def pool_inv_def dest: in_set_takeD)
qed

lemma NewStream_inv:
  assumes "pool_inv m p"
  shows "pool_inv m (NewStream m connected canCreate p)"
proof -
  obtain r p1 where g: "getAvailableClient m connected p = (r, p1)"
    by (cases "getAvailableClient m connected p")
  with getAvailableClient_inv[OF assms, of connected] have "pool_inv m p1" by simp
  with g show ?thesis
    by (cases r) (auto simp: NewStream_def Let_def split: option.splits)
qed

lemma Close_inv: "pool_inv m p \<Longrightarrow> pool_inv m (Close p)"
  by (simp add: Close_def)

lemma onStreamReset_inv: "pool_inv m p \<Longrightarrow> pool_inv m (onStreamReset p client reason)"
  by (auto simp: onStreamReset_def Let_def pool_inv_def)

lemma onStreamDestroy_inv:
  "pool_inv m p \<Longrightarrow> client \<notin> set (availableClients p) \<Longrightarrow> pool_inv m (onStreamDestroy p client)"
  by (auto simp: onStreamDestroy_def Let_def pool_inv_def)

lemma onConnectionEvent_inv:
  assumes "pool_inv m p" and "IsClose event \<longrightarrow> totalClientCount p \<noteq> 0"
  shows "pool_inv m (onConnectionEvent IsClose p client event)"
proof (cases "IsClose event")
  case True
  with assms have "unat (totalClientCount p - 1) < unat (totalClientCount p)"
    by (simp add: measure_unat)
  then have "totalClientCount p - 1 \<le> totalClientCount p"
    by (simp add: word_le_nat_alt)
  moreover from assms(1) have "totalClientCount p \<le> m" by (simp add: pool_inv_def)
  ultimately have le: "totalClientCount p - 1 \<le> m" by (rule order_trans)
  from assms(1) have "client \<notin> set (remove1 client (availableClients p))"
    by (simp add: pool_inv_def)
  moreover from assms(1) have "\<forall>c \<in> set (remove1 client (availableClients p)). \<not> closed (clients p c)"
    by (auto simp: pool_inv_def dest: notin_set_remove1)
  moreover from assms(1) have "distinct (remove1 client (availableClients p))"
    by (simp add: pool_inv_def)
  ultimately show ?thesis using True le
    by (auto simp: onConnectionEvent_def Let_def pool_inv_def removeAvailable_remove1)
next
  case False
  with assms(1) show ?thesis by (simp add: onConnectionEvent_def Let_def)
qed


lemma IncBoth_PendingOverflow [simp]:
  "hostStats (IncBoth UpstreamRequestPendingOverflow_update p)
     = (hostStats p)\<lparr>UpstreamRequestPendingOverflow :=
          UpstreamRequestPendingOverflow (hostStats p) + 1\<rparr>"
  "clusterStats (IncBoth UpstreamRequestPendingOverflow_update p)
     = (clusterStats p)\<lparr>UpstreamRequestPendingOverflow :=
          UpstreamRequestPendingOverflow (clusterStats p) + 1\<rparr>"
  by (simp_all add: IncBoth_def Inc_def)

lemma onStreamDestroy_partial:
  assumes "pool_inv m p"
  shows "totalClientCount (onStreamDestroy p client) \<le> m"
    and "\<forall>c \<in> set (availableClients (onStreamDestroy p client)).
           \<not> closed (clients (onStreamDestroy p client) c)"
  using assms by (auto simp: onStreamDestroy_def Let_def pool_inv_def)

lemma onConnectionEvent_partial:
  assumes "pool_inv m p"
  shows "\<forall>c \<in> set (availableClients (onConnectionEvent IsClose p client event)).
           \<not> closed (clients (onConnectionEvent IsClose p client event) c)"
    and "distinct (availableClients (onConnectionEvent IsClose p client event))"
  using assms
  by (auto simp: onConnectionEvent_def Let_def pool_inv_def removeAvailable_remove1
      dest: notin_set_remove1)

text \<open>
  Claim C1, as amended. From a pool state that satisfies the invariant (count at most the
  maximum, no closed client in the free list, no client listed twice):
  \<open>getAvailableClient\<close>, \<open>NewStream\<close> and \<open>Close\<close> lead to a state that satisfies it;
  \<open>onStreamDestroy\<close> keeps the bound and keeps closed clients out of the free list, and
  keeps the whole invariant when the destroyed stream's client is not already in the free
  list; \<open>onConnectionEvent\<close> keeps closed clients out of the free list and keeps it free of
  duplicates, and keeps the whole invariant when a close event finds a count that is not
  zero.
\<close>

theorem pool_operations_preserve_invariant:
  assumes "pool_inv maxConns p"
  shows "pool_inv maxConns (snd (getAvailableClient maxConns connected p))
       \<and> pool_inv maxConns (NewStream maxConns connected canCreate p)
       \<and> pool_inv maxConns (Close p)
       \<and> totalClientCount (onStreamDestroy p client) \<le> maxConns
       \<and> (\<forall>c \<in> set (availableClients (onStreamDestroy p client)).
             \<not> closed (clients (onStreamDestroy p client) c))
       \<and> (client \<notin> set (availableClients p) \<longrightarrow> pool_inv maxConns (onStreamDestroy p client))
       \<and> (\<forall>c \<in> set (availableClients (onConnectionEvent IsClose p client event)).
             \<not> closed (clients (onConnectionEvent IsClose p client event) c))
       \<and> distinct (availableClients (onConnectionEvent IsClose p client event))
       \<and> ((IsClose event \<longrightarrow> totalClientCount p \<noteq> 0) \<longrightarrow>
            pool_inv maxConns (onConnectionEvent IsClose p client event))"
proof (intro conjI impI)
  show "pool_inv maxConns (snd (getAvailableClient maxConns connected p))"
    by (rule getAvailableClient_inv[OF assms])
  show "pool_inv maxConns (NewStream maxConns connected canCreate p)"
    by (rule NewStream_inv[OF assms])
  show "pool_inv maxConns (Close p)"
    by (rule Close_inv[OF assms])
  show "totalClientCount (onStreamDestroy p client) \<le> maxConns"
    by (rule onStreamDestroy_partial(1)[OF assms])
  show "\<forall>c \<in> set (availableClients (onStreamDestroy p client)).
          \<not> closed (clients (onStreamDestroy p client) c)"
    by (rule onStreamDestroy_partial(2)[OF assms])
  show "pool_inv maxConns (onStreamDestroy p client)" if "client \<notin> set (availableClients p)"
    using assms that by (rule onStreamDestroy_inv)
  show "\<forall>c \<in> set (availableClients (onConnectionEvent IsClose p client event)).
          \<not> closed (clients (onConnectionEvent IsClose p client event) c)"
    by (rule onConnectionEvent_partial(1)[OF assms])
  show "distinct (availableClients (onConnectionEvent IsClose p client event))"
    by (rule onConnectionEvent_partial(2)[OF assms])
  show "pool_inv maxConns (onConnectionEvent IsClose p client event)"
    if "IsClose event \<longrightarrow> totalClientCount p \<noteq> 0"
    using assms that by (rule onConnectionEvent_inv)
qed

theorem pool_operations_preserve_invariant_witness:
  "pool_inv 2 poolOneIdle
   \<and> 1 \<notin> set (availableClients poolOneIdle)
   \<and> totalClientCount poolOneIdle \<noteq> 0
   \<and> pool_inv 2 (snd (getAvailableClient 2 True poolOneIdle))
   \<and> pool_inv 2 (NewStream 2 True True poolOneIdle)
   \<and> pool_inv 2 (Close poolOneIdle)
   \<and> pool_inv 2 (onStreamDestroy poolOneIdle 1)
   \<and> pool_inv 2 (onConnectionEvent exIsClose poolOneIdle 0 RemoteClose)"
proof -
  have a: "pool_inv 2 poolOneIdle" by code_simp
  have b: "1 \<notin> set (availableClients poolOneIdle)" by code_simp
  have c: "totalClientCount poolOneIdle \<noteq> 0" by code_simp
  from pool_operations_preserve_invariant[OF a, of True True 1 exIsClose RemoteClose]
    pool_operations_preserve_invariant[OF a, of True True 0 exIsClose RemoteClose] a b c
  show ?thesis by blast
qed

text \<open>
  Claim C1 as stated fails. With a maximum of two connections, the pool that holds its one
  client in the free list satisfies the invariant, and a stream destroy for that client
  lists it a second time. The pool whose one client has been closed satisfies the
  invariant with a count of zero, and a further close event wraps the unsigned count
  around to a value above the maximum.
\<close>

theorem pool_invariant_counterexample:
  "pool_inv 2 poolOneIdle \<and> \<not> pool_inv 2 (onStreamDestroy poolOneIdle 0)
   \<and> pool_inv 2 poolOneClosed
   \<and> \<not> pool_inv 2 (onConnectionEvent exIsClose poolOneClosed 0 LocalClose)"
  by code_simp

text \<open>
  Claim C3. \<open>NewStream\<close> on a pool whose free list is empty and whose count has reached
  the maximum creates no client (the store and the next address are unchanged), leaves
  the count unchanged, adds one to the pending-overflow counter of the host and of the
  cluster and to no other counter, and calls the listener's \<open>OnFailure\<close> with reason
  \<open>Overflow\<close> and nothing else.
\<close>

theorem NewStream_overflow_at_max:
  assumes "availableClients p = []" and "maxConns \<le> totalClientCount p"
  shows "totalClientCount (NewStream maxConns connected canCreate p) = totalClientCount p
       \<and> nextClient (NewStream maxConns connected canCreate p) = nextClient p
       \<and> clients (NewStream maxConns connected canCreate p) = clients p
       \<and> availableClients (NewStream maxConns connected canCreate p) = []
       \<and> hostStats (NewStream maxConns connected canCreate p)
           = (hostStats p)\<lparr>UpstreamRequestPendingOverflow :=
                UpstreamRequestPendingOverflow (hostStats p) + 1\<rparr>
       \<and> clusterStats (NewStream maxConns connected canCreate p)
           = (clusterStats p)\<lparr>UpstreamRequestPendingOverflow :=
                UpstreamRequestPendingOverflow (clusterStats p) + 1\<rparr>
       \<and> calls (NewStream maxConns connected canCreate p) = calls p @ [OnFailure Overflow]"
proof -
  from assms(2) have "\<not> totalClientCount p < maxConns" by simp
  with assms(1) have "getAvailableClient maxConns connected p
      = ((None, Overflow), IncBoth UpstreamRequestPendingOverflow_update p)"
    by (simp add: getAvailableClient_def)
  then show ?thesis using assms(1) by (simp add: NewStream_def)
qed

theorem NewStream_overflow_at_max_witness:
  "availableClients poolFull = [] \<and> (2 :: 64 word) \<le> totalClientCount poolFull
   \<and> totalClientCount (NewStream 2 True True poolFull) = 2
   \<and> nextClient (NewStream 2 True True poolFull) = nextClient poolFull
   \<and> UpstreamRequestPendingOverflow (hostStats (NewStream 2 True True poolFull)) = 1
   \<and> UpstreamRequestPendingOverflow (clusterStats (NewStream 2 True True poolFull)) = 1
   \<and> calls (NewStream 2 True True poolFull) = calls poolFull @ [OnFailure Overflow]"
proof -
  have a: "availableClients poolFull = []" by code_simp
  have b: "(2 :: 64 word) \<le> totalClientCount poolFull" by code_simp
  have c: "totalClientCount poolFull = 2" by code_simp
  have d: "UpstreamRequestPendingOverflow (hostStats poolFull) = 0"
    "UpstreamRequestPendingOverflow (clusterStats poolFull) = 0" by code_simp+
  from NewStream_overflow_at_max[OF a b, of True True] a b c d
  show ?thesis by simp
qed


lemma NewStream_at_max_one:
  assumes "availableClients q = []" and "totalClientCount q = 1"
  shows "availableClients (NewStream 1 connected canCreate q) = []"
    and "totalClientCount (NewStream 1 connected canCreate q) = 1"
    and "calls (NewStream 1 connected canCreate q) = calls q @ [OnFailure Overflow]"
  using assms by (simp_all add: NewStream_def getAvailableClient_def)

lemma NewStreams_at_max_one:
  "availableClients q = [] \<Longrightarrow> totalClientCount q = 1 \<Longrightarrow>
   availableClients (NewStreams 1 answers q) = []
   \<and> calls (NewStreams 1 answers q) = calls q @ replicate (length answers) (OnFailure Overflow)"
proof (induction answers arbitrary: q)
  case Nil
  then show ?case by (simp add: NewStreams_def)
next
  case (Cons a answers)
  obtain connected canCreate where a: "a = (connected, canCreate)" by (cases a)
  note st = NewStream_at_max_one[OF Cons.prems, of connected canCreate]
  from Cons.IH[OF st(1) st(2)] st(3) a show ?case
    by (simp add: NewStreams_def replicate_app_Cons_same)
qed

lemma poolRefused_state:
  "availableClients poolRefused = []"
  "totalClientCount poolRefused = 1"
  "calls poolRefused = [OnFailure Overflow]"
  "nextClient poolRefused = 1"
  "\<not> closed (clients poolRefused 0)"
  by (simp_all add: poolRefused_def NewStream_def getAvailableClient_def newActiveClient_def
      NewConnPool_def Let_def)

text \<open>
  Claim C4 says that the client held when the requests resource manager refuses a request
  is returned to the free list on stream destroy. The source does not get there. On a
  pool of at most one connection, the refused \<open>NewStream\<close> creates client 0 and makes one
  call, \<open>OnFailure\<close> with reason \<open>Overflow\<close>: no stream is created on the client, so no
  stream destroy follows, and the client, open and counted, is in no free list. Every
  later \<open>NewStream\<close>, whatever the collaborators answer, finds the free list empty and the
  count at the maximum and fails with \<open>Overflow\<close>. On the admitted path the stream is
  created, and its destroy returns the client.
\<close>

theorem NewStream_request_overflow_leaks_client:
  "calls poolRefused = [OnFailure Overflow]
   \<and> nextClient poolRefused = 1
   \<and> totalClientCount poolRefused = 1
   \<and> \<not> closed (clients poolRefused 0)
   \<and> availableClients poolRefused = []
   \<and> availableClients (NewStreams 1 answers poolRefused) = []
   \<and> calls (NewStreams 1 answers poolRefused)
       = replicate (Suc (length answers)) (OnFailure Overflow)
   \<and> calls (NewStream 1 True True NewConnPool) = [RequestsIncrease, CodecNewStream 0, OnReady 0]
   \<and> availableClients (onStreamDestroy (NewStream 1 True True NewConnPool) 0) = [0]"
proof -
  from NewStreams_at_max_one[OF poolRefused_state(1,2), of answers] poolRefused_state(3)
  have "availableClients (NewStreams 1 answers poolRefused) = []"
    and "calls (NewStreams 1 answers poolRefused)
       = replicate (Suc (length answers)) (OnFailure Overflow)"
    by simp_all
  moreover have "calls (NewStream 1 True True NewConnPool)
      = [RequestsIncrease, CodecNewStream 0, OnReady 0]"
    by (simp add: NewStream_def getAvailableClient_def newActiveClient_def NewConnPool_def Let_def)
  moreover have "availableClients (onStreamDestroy (NewStream 1 True True NewConnPool) 0) = [0]"
    by (simp add: onStreamDestroy_def NewStream_def getAvailableClient_def newActiveClient_def
        NewConnPool_def Let_def)
  ultimately show ?thesis using poolRefused_state by simp
qed

section \<open>Keep-alive controller\<close>

text \<open>
  Claim C9. Whatever happened to a keep-alive controller before (any number of probes,
  timeouts and responses), a response for a request ID that is pending resets
  \<open>timeoutCount\<close> to zero; it is reported as one \<open>Success\<close> and the ID is no longer
  pending.
\<close>

theorem keepalive_success_resets_timeoutCount:
  assumes "reqID \<in> set (pendingIDs (keepAliveRun k evs))"
  shows "timeoutCount (keepAliveRun k (evs @ [ResponseFor reqID])) = 0
       \<and> recorded (keepAliveRun k (evs @ [ResponseFor reqID]))
           = recorded (keepAliveRun k evs) @ [KeepAliveSuccess]
       \<and> reqID \<notin> set (pendingIDs (keepAliveRun k (evs @ [ResponseFor reqID])))"
  using assms by (simp add: keepAliveRun_def HandleSuccess_def)

theorem keepalive_success_resets_witness:
  "6 \<in> set (pendingIDs (keepAliveRun (NewSofaRPCKeepAlive 6) fiveTimeoutsThenProbe))
   \<and> timeoutCount (keepAliveRun (NewSofaRPCKeepAlive 6) fiveTimeoutsThenProbe) = 5
   \<and> \<not> stopped (keepAliveRun (NewSofaRPCKeepAlive 6) fiveTimeoutsThenProbe)
   \<and> timeoutCount (keepAliveRun (NewSofaRPCKeepAlive 6) (fiveTimeoutsThenProbe @ [ResponseFor 6])) = 0
   \<and> recorded (keepAliveRun (NewSofaRPCKeepAlive 6) (fiveTimeoutsThenProbe @ [ResponseFor 6]))
       = [KeepAliveTimeout, KeepAliveTimeout, KeepAliveTimeout, KeepAliveTimeout,
          KeepAliveTimeout, KeepAliveSuccess]"
proof -
  have a: "6 \<in> set (pendingIDs (keepAliveRun (NewSofaRPCKeepAlive 6) fiveTimeoutsThenProbe))"
    by code_simp
  have b: "timeoutCount (keepAliveRun (NewSofaRPCKeepAlive 6) fiveTimeoutsThenProbe) = 5"
    by code_simp
  have c: "\<not> stopped (keepAliveRun (NewSofaRPCKeepAlive 6) fiveTimeoutsThenProbe)"
    by code_simp
  have d: "recorded (keepAliveRun (NewSofaRPCKeepAlive 6) fiveTimeoutsThenProbe)
       = [KeepAliveTimeout, KeepAliveTimeout, KeepAliveTimeout, KeepAliveTimeout, KeepAliveTimeout]"
    by code_simp
  from keepalive_success_resets_timeoutCount[OF a] a b c d show ?thesis by simp
qed

section \<open>Metrics handoff\<close>

lemma updRegistry_fresh:
  "key \<notin> fst ` set reg \<Longrightarrow> f fresh = Inr m \<Longrightarrow> updRegistry key fresh f reg = Inr (reg @ [(key, m)])"
  by (induction reg) auto

lemma fold_snoc: "fold (\<lambda>v h. h @ [v]) vs xs = xs @ vs"
  by (induction vs arbitrary: xs) auto

lemma applyAll_append:
  "applyAll (ds @ es) reg = (case applyAll ds reg of Inl e \<Rightarrow> Inl e | Inr reg' \<Rightarrow> applyAll es reg')"
  by (induction ds arbitrary: reg) (auto split: sum.splits)

lemma applyAll_eachEntry:
  assumes "key \<notin> fst ` set acc"
  shows "applyAll (eachEntry (key, m)) acc
           = Inr (acc @ filter (\<lambda>(key, m). m \<noteq> OtherMetric) [(key, m)])"
proof (cases m)
  case (Counter c)
  then show ?thesis using updRegistry_fresh[OF assms, of _ "Counter 0" "Counter c"]
    by (simp add: applyData_def CounterInc_def metricsCounter_def)
next
  case (Gauge g)
  then show ?thesis using updRegistry_fresh[OF assms, of _ "Gauge 0" "Gauge g"]
    by (simp add: applyData_def GaugeUpdate_def metricsCounter_def metricsGauge_def)
next
  case (Histogram vs)
  then show ?thesis using updRegistry_fresh[OF assms, of _ "Histogram []" "Histogram vs"]
    by (simp add: applyData_def HistogramUpdates_def metricsCounter_def metricsGauge_def
        metricsHistogram_def fold_snoc)
next
  case OtherMetric
  then show ?thesis by simp
qed

lemma applyAll_registry:
  "distinct (map fst reg) \<Longrightarrow> fst ` set reg \<inter> fst ` set acc = {} \<Longrightarrow>
   applyAll (concat (map eachEntry reg)) acc
     = Inr (acc @ filter (\<lambda>(key, m). m \<noteq> OtherMetric) reg)"
proof (induction reg arbitrary: acc)
  case Nil
  then show ?case by simp
next
  case (Cons e reg)
  obtain key m where e: "e = (key, m)" by (cases e)
  from Cons.prems e have fresh: "key \<notin> fst ` set acc" by auto
  let ?acc' = "acc @ filter (\<lambda>(key, m). m \<noteq> OtherMetric) [(key, m)]"
  from Cons.prems e have d: "distinct (map fst reg)" and
    i: "fst ` set reg \<inter> fst ` set ?acc' = {}"
    by (auto simp: image_iff)
  from Cons.IH[OF d i] applyAll_eachEntry[OF fresh, of m] e show ?case
    by (simp add: applyAll_append)
qed

lemma NewMetrics_fresh:
  "(typ, labels) \<notin> (\<lambda>s. (mType s, mLabels s)) ` set store \<Longrightarrow> body [] = Inr reg \<Longrightarrow>
   NewMetrics typ labels body store = Inr (store @ [\<lparr>mType = typ, mLabels = labels, mRegistry = reg\<rparr>])"
  by (induction store) auto

lemma carried_eq:
  "carried s = \<lparr>mType = mType s, mLabels = mLabels s,
                mRegistry = filter (\<lambda>(key, m). m \<noteq> OtherMetric) (mRegistry s)\<rparr>"
  by (simp add: carried_def)

lemma carried_ident [simp]: "mType (carried s) = mType s" "mLabels (carried s) = mLabels s"
  by (simp_all add: carried_def)

lemma applyTransfers_store:
  "distinct (map (\<lambda>s. (mType s, mLabels s)) store) \<Longrightarrow>
   \<forall>s \<in> set store. distinct (map fst (mRegistry s)) \<Longrightarrow>
   (\<lambda>s. (mType s, mLabels s)) ` set store \<inter> (\<lambda>s. (mType s, mLabels s)) ` set acc = {} \<Longrightarrow>
   applyTransfers (map transferOf store) acc = Inr (acc @ map carried store)"
proof (induction store arbitrary: acc)
  case Nil
  then show ?case by simp
next
  case (Cons s store)
  from Cons.prems have fresh: "(mType s, mLabels s) \<notin> (\<lambda>s. (mType s, mLabels s)) ` set acc"
    by auto
  from Cons.prems have "distinct (map fst (mRegistry s))" by simp
  then have body: "applyAll (concat (map eachEntry (mRegistry s))) []
      = Inr (filter (\<lambda>(key, m). m \<noteq> OtherMetric) (mRegistry s))"
    using applyAll_registry[of "mRegistry s" "[]"] by simp
  have step: "NewMetrics (mType s) (mLabels s) (applyAll (concat (map eachEntry (mRegistry s)))) acc
      = Inr (acc @ [carried s])"
    using NewMetrics_fresh[of "mType s" "mLabels s" acc
        "applyAll (concat (map eachEntry (mRegistry s)))", OF fresh body]
    by (simp add: carried_eq)
  from Cons.prems have d: "distinct (map (\<lambda>s. (mType s, mLabels s)) store)"
    and r: "\<forall>s \<in> set store. distinct (map fst (mRegistry s))"
    and i: "(\<lambda>s. (mType s, mLabels s)) ` set store
            \<inter> (\<lambda>s. (mType s, mLabels s)) ` set (acc @ [carried s]) = {}"
    by (auto simp: image_iff)
  from Cons.IH[OF d r i] step show ?case by (simp add: transferOf_def)
qed


text \<open>
  Claim C8. For every well-formed state of the metrics registry, when \<open>makesTransferData\<close>
  succeeds and the decoder returns what the encoder was given, \<open>readTransferData\<close> applied
  to those bytes on an empty receiving registry returns no error and leaves a registry
  with the same metrics objects in which every counter has the same count, every gauge
  the same value and every histogram the same sample values; metrics of other kinds are
  not carried over.
\<close>

theorem transfer_round_trip:
  assumes "wf_store store"
    and "makesTransferData gobEncode store = Inr b"
    and "\<And>ts. gobEncode ts = Inr b \<Longrightarrow> gobDecode b = Inr ts"
  shows "readTransferData gobDecode b [] = Inr (None, map carried store)"
proof -
  from assms(2,3) have dec: "gobDecode b = Inr (map transferOf store)"
    by (simp add: makesTransferData_def)
  from assms(1) have "applyTransfers (map transferOf store) [] = Inr ([] @ map carried store)"
    unfolding wf_store_def by (intro applyTransfers_store) simp_all
  with dec show ?thesis by (simp add: readTransferData_def)
qed

theorem transfer_round_trip_witness:
  "wf_store exStore
   \<and> makesTransferData Inr exStore = Inr (map transferOf exStore)
   \<and> readTransferData Inr (map transferOf exStore) [] = Inr (None, exStore)"
proof -
  have a: "wf_store exStore" by code_simp
  have b: "makesTransferData Inr exStore = Inr (map transferOf exStore)"
    by (simp add: makesTransferData_def)
  have c: "map carried exStore = exStore" by code_simp
  have d: "\<And>ts. (Inr ts :: string + TransferStats list) = Inr (map transferOf exStore)
      \<Longrightarrow> (Inr (map transferOf exStore) :: string + TransferStats list) = Inr ts" by simp
  from transfer_round_trip[of exStore Inr "map transferOf exStore" Inr, OF a b d] a b c
  show ?thesis by simp
qed

end
